theory Spec2Isabelle
  imports Complex_Main "HOL-Library.Multiset" "HOL-Library.Sublist"
begin

section \<open>Funds-pull pre-approvals: classification into buckets\<close>

text \<open>
  The page \<^verbatim>\<open>FundsPullPreApprovals.tsx\<close> splits the fetched approvals into three
  arrays with one \<^verbatim>\<open>for ... of\<close> loop.  Only the fields the sources read are kept.
  Timestamps are integers (seconds since the epoch, as the backend sends them).

  A \<^verbatim>\<open>Date\<close> holds a time value, a count of milliseconds, or is invalid:
  \<^verbatim>\<open>new Date(ms)\<close> is invalid when \<open>ms\<close> is more than 8.64e15 away from zero
  (here \<open>None\<close>).  The operator \<^verbatim>\<open><\<close> on two dates compares their time values,
  and is false as soon as one of them is invalid (its time value is \<^verbatim>\<open>NaN\<close>).
\<close>

definition new_Date :: "int \<Rightarrow> int option" where
  "new_Date ms =
     (if - 8640000000000000 \<le> ms \<and> ms \<le> 8640000000000000 then Some ms else None)"

definition date_less :: "int option \<Rightarrow> int option \<Rightarrow> bool" where
  "date_less a b =
     (case a of
        None \<Rightarrow> False
      | Some x \<Rightarrow> (case b of None \<Rightarrow> False | Some y \<Rightarrow> x < y))"

text \<open>
  The loop body evaluates \<^verbatim>\<open>new Date()\<close> afresh for every approval whose status is
  valid, so the clock is a function of the loop index: \<open>clock i\<close> is the reading (in
  milliseconds) taken while the approval at index \<open>i\<close> is processed.  The date of the
  current time is always valid.
\<close>

record scope_rec =
  expiration_timestamp :: int

record approval =
  funds_pull_pre_approval_id :: string
  biller_name :: string
  status :: string
  scope :: scope_rec

type_synonym buckets = "approval list \<times> approval list \<times> approval list"

text \<open>The body of the loop: \<open>push\<close> appends at the end of one of the three arrays.\<close>

fun classify_body :: "int \<Rightarrow> buckets \<Rightarrow> approval \<Rightarrow> buckets" where
  "classify_body now (newApprovals, activeApprovals, historyApprovals) approval =
     (if status approval = ''pending'' then
        (newApprovals @ [approval], activeApprovals, historyApprovals)
      else if status approval = ''valid'' then
        (let expiration = new_Date (expiration_timestamp (scope approval) * 1000);
             now_date = Some now in
         if date_less expiration now_date then
           (newApprovals, activeApprovals, historyApprovals @ [approval])
         else
           (newApprovals, activeApprovals @ [approval], historyApprovals))
      else
        (newApprovals, activeApprovals, historyApprovals @ [approval]))"

fun classify_loop :: "(nat \<Rightarrow> int) \<Rightarrow> nat \<Rightarrow> approval list \<Rightarrow> buckets \<Rightarrow> buckets" where
  "classify_loop clock i [] acc = acc"
| "classify_loop clock i (approval # rest) acc =
     classify_loop clock (Suc i) rest (classify_body (clock i) acc approval)"

definition classify :: "(nat \<Rightarrow> int) \<Rightarrow> approval list \<Rightarrow> buckets" where
  "classify clock approvals = classify_loop clock 0 approvals ([], [], [])"

text \<open>The bucket the loop body chooses, as a value.\<close>

datatype bucket = New | Active | History

definition bucket_of :: "int \<Rightarrow> approval \<Rightarrow> bucket" where
  "bucket_of now approval =
     (if status approval = ''pending'' then New
      else if status approval = ''valid'' then
        (if date_less (new_Date (expiration_timestamp (scope approval) * 1000)) (Some now)
         then History else Active)
      else History)"

text \<open>Concatenation of two classifications, bucket by bucket.\<close>

fun join :: "buckets \<Rightarrow> buckets \<Rightarrow> buckets" where
  "join (n1, a1, h1) (n2, a2, h2) = (n1 @ n2, a1 @ a2, h1 @ h2)"

fun put :: "bucket \<Rightarrow> approval \<Rightarrow> buckets" where
  "put New x = ([x], [], [])"
| "put Active x = ([], [x], [])"
| "put History x = ([], [], [x])"

text \<open>The index set of a bucket, and the projection of a classification on a bucket.\<close>

definition positions :: "(nat \<Rightarrow> int) \<Rightarrow> approval list \<Rightarrow> bucket \<Rightarrow> nat set" where
  "positions clock xs b = {i. i < length xs \<and> bucket_of (clock i) (xs ! i) = b}"

fun pick :: "bucket \<Rightarrow> buckets \<Rightarrow> approval list" where
  "pick New (n, a, h) = n"
| "pick Active (n, a, h) = a"
| "pick History (n, a, h) = h"

text \<open>A concrete approval and a clock that stands still, for the examples.\<close>

definition mk :: "string \<Rightarrow> string \<Rightarrow> int \<Rightarrow> approval" where
  "mk i st e = \<lparr>funds_pull_pre_approval_id = i, biller_name = ''biller'', status = st,
     scope = \<lparr>expiration_timestamp = e\<rparr>\<rparr>"

definition still :: "nat \<Rightarrow> int" where
  "still i = 1600000000000"


section \<open>Polling feeds\<close>

text \<open>
  The three feeds are asynchronous functions that call themselves again through
  \<^verbatim>\<open>setTimeout\<close>.  An invocation runs to its \<^verbatim>\<open>await\<close>, is suspended while the
  backend call is in flight, and is resumed with the result, a value or a thrown error.
  The model is at the level of the effects the sources perform: calls of the state setter,
  of \<^verbatim>\<open>setTimeout\<close>, \<^verbatim>\<open>clearTimeout\<close> and \<^verbatim>\<open>console.error\<close>, and of the
  session storage and the navigation.  JavaScript runs one callback at a time, so every
  event below is one atomic step.
\<close>

datatype error =
    BackendError nat string   \<comment> \<open>typed error of the backend client: HTTP status, message\<close>
  | TypeError string
  | OtherError string

definition UNAUTHORIZED :: nat where
  "UNAUTHORIZED = 401"

text \<open>
  What every feed can touch.  \<open>updates\<close> counts the calls of the state setter and
  \<open>scheduled\<close> the calls of \<^verbatim>\<open>setTimeout\<close>; \<open>late_updates\<close> and \<open>late_scheduled\<close>
  count those made after the cleanup function of the effect has run (after the unmount).
\<close>

record effects =
  mounted :: bool
  updates :: nat
  late_updates :: nat
  scheduled :: nat
  late_scheduled :: nat
  console :: "error list"
  access_token :: "string option"
  screen :: string

definition console_error :: "error \<Rightarrow> 'z effects_scheme \<Rightarrow> 'z effects_scheme" where
  "console_error e s = s\<lparr>console := console s @ [e]\<rparr>"

definition count_update :: "'z effects_scheme \<Rightarrow> 'z effects_scheme" where
  "count_update s =
     s\<lparr>updates := updates s + 1,
       late_updates := (if mounted s then late_updates s else late_updates s + 1)\<rparr>"

definition count_schedule :: "'z effects_scheme \<Rightarrow> 'z effects_scheme" where
  "count_schedule s =
     s\<lparr>scheduled := scheduled s + 1,
       late_scheduled := (if mounted s then late_scheduled s else late_scheduled s + 1)\<rparr>"

subsection \<open>The two feeds of the web pages\<close>

text \<open>
  \<open>refresh\<close> is the variable \<^verbatim>\<open>refreshApprovals\<close> (\<^verbatim>\<open>refreshTransactions\<close>) captured
  by the closure, \<open>shared\<close> the value last handed to the state setter, \<open>timers\<close> the
  number of callbacks queued by \<^verbatim>\<open>setTimeout\<close> that have not fired yet, \<open>in_flight\<close>
  the number of invocations suspended at their \<^verbatim>\<open>await\<close>.
\<close>

record 'a poller = effects +
  refresh :: bool
  shared :: "'a"
  timers :: nat
  in_flight :: nat

definition setState :: "'a \<Rightarrow> ('a, 'z) poller_scheme \<Rightarrow> ('a, 'z) poller_scheme" where
  "setState v s = count_update (s\<lparr>shared := v\<rparr>)"

definition setTimeout :: "('a, 'z) poller_scheme \<Rightarrow> ('a, 'z) poller_scheme" where
  "setTimeout s = count_schedule (s\<lparr>timers := timers s + 1\<rparr>)"

definition suspend :: "('a, 'z) poller_scheme \<Rightarrow> ('a, 'z) poller_scheme" where
  "suspend s = s\<lparr>in_flight := in_flight s + 1\<rparr>"

text \<open>
  \<^verbatim>\<open>fetchApprovals\<close>: the flag is read before the backend call is made; the call of
  \<^verbatim>\<open>setTimeout\<close> stands after the \<^verbatim>\<open>if\<close>, inside the \<^verbatim>\<open>try\<close>.
\<close>

definition fetchApprovals_call :: "('a, 'z) poller_scheme \<Rightarrow> ('a, 'z) poller_scheme" where
  "fetchApprovals_call s = (if refresh s then suspend s else setTimeout s)"

definition fetchApprovals_resume ::
  "error + 'a \<Rightarrow> ('a, 'z) poller_scheme \<Rightarrow> ('a, 'z) poller_scheme" where
  "fetchApprovals_resume r s =
     (case r of
        Inr approvals \<Rightarrow> setTimeout (setState approvals s)
      | Inl e \<Rightarrow> console_error e s)"

text \<open>
  \<^verbatim>\<open>fetchTransactions\<close>: the call of \<^verbatim>\<open>setTimeout\<close> stands inside the \<^verbatim>\<open>if\<close>.
\<close>

definition fetchTransactions_call :: "('a, 'z) poller_scheme \<Rightarrow> ('a, 'z) poller_scheme" where
  "fetchTransactions_call s = (if refresh s then suspend s else s)"

definition fetchTransactions_resume ::
  "error + 'a \<Rightarrow> ('a, 'z) poller_scheme \<Rightarrow> ('a, 'z) poller_scheme" where
  "fetchTransactions_resume r s =
     (case r of
        Inr transactions \<Rightarrow> setTimeout (setState transactions s)
      | Inl e \<Rightarrow> console_error e s)"

text \<open>
  The events of a feed: a queued timer fires and calls the fetch function; the backend
  call of a suspended invocation settles; the view is unmounted and the cleanup function
  of the effect runs.  An event that is not enabled gives \<open>None\<close>.
\<close>

datatype 'a event = Fire | Settle "error + 'a" | Cleanup

definition poll_step ::
  "(('a, 'z) poller_scheme \<Rightarrow> ('a, 'z) poller_scheme) \<Rightarrow>
   (error + 'a \<Rightarrow> ('a, 'z) poller_scheme \<Rightarrow> ('a, 'z) poller_scheme) \<Rightarrow>
   'a event \<Rightarrow> ('a, 'z) poller_scheme \<Rightarrow> ('a, 'z) poller_scheme option" where
  "poll_step call resume ev s =
     (case ev of
        Fire \<Rightarrow> if timers s = 0 then None else Some (call (s\<lparr>timers := timers s - 1\<rparr>))
      | Settle r \<Rightarrow>
          if in_flight s = 0 then None else Some (resume r (s\<lparr>in_flight := in_flight s - 1\<rparr>))
      | Cleanup \<Rightarrow>
          if mounted s then Some (s\<lparr>refresh := False, mounted := False\<rparr>) else None)"

definition approvals_step :: "'a event \<Rightarrow> 'a poller \<Rightarrow> 'a poller option" where
  "approvals_step = poll_step fetchApprovals_call fetchApprovals_resume"

definition transactions_step :: "'a event \<Rightarrow> 'a poller \<Rightarrow> 'a poller option" where
  "transactions_step = poll_step fetchTransactions_call fetchTransactions_resume"

fun run :: "('e \<Rightarrow> 's \<Rightarrow> 's option) \<Rightarrow> 'e list \<Rightarrow> 's \<Rightarrow> 's option" where
  "run step [] s = Some s"
| "run step (ev # evs) s = (case step ev s of None \<Rightarrow> None | Some s' \<Rightarrow> run step evs s')"

text \<open>
  The state in which the effect starts: the view is mounted, the state is the initial
  value given to \<^verbatim>\<open>useState\<close>, nothing is queued.  Mounting calls the fetch function once.
\<close>

definition fresh :: "'a \<Rightarrow> string option \<Rightarrow> string \<Rightarrow> 'a poller" where
  "fresh init token scr =
     \<lparr>mounted = True, updates = 0, late_updates = 0, scheduled = 0, late_scheduled = 0,
      console = [], access_token = token, screen = scr,
      refresh = True, shared = init, timers = 0, in_flight = 0\<rparr>"

definition mount_approvals :: "string option \<Rightarrow> string \<Rightarrow> approval list poller" where
  "mount_approvals token scr = fetchApprovals_call (fresh [] token scr)"

definition mount_transactions :: "string option \<Rightarrow> string \<Rightarrow> 'a list poller" where
  "mount_transactions token scr = fetchTransactions_call (fresh [] token scr)"

subsection \<open>The user feed\<close>

text \<open>
  \<^verbatim>\<open>UserProvider\<close> holds the user in \<^verbatim>\<open>useState\<close> and the handle of the last timer
  in \<^verbatim>\<open>timeoutRef\<close>; its cleanup function calls \<^verbatim>\<open>clearTimeout\<close> on that handle.
  Of a user and a payment method only the fields the sources read are kept.
\<close>

record payment_method =
  pm_id :: int
  pm_name :: string
  pm_provider :: string

record user =
  first_name :: string
  last_name :: string
  registration_status :: string
  is_admin :: bool
  paymentMethods :: "payment_method list option"

text \<open>
  \<open>pending\<close> are the handles of the queued timers (a handle is the number of the call of
  \<^verbatim>\<open>setTimeout\<close> that made it), \<open>awaiting_token\<close> and \<open>awaiting_backend\<close> count the
  invocations suspended at the first and at the second \<^verbatim>\<open>await\<close> of \<^verbatim>\<open>loadUser\<close>.
  The session storage and the navigation are collaborators whose code is not among the
  sources; whether their calls in the \<^verbatim>\<open>catch\<close> block are rejected is a parameter of
  the state: \<open>storage_fails\<close> for \<^verbatim>\<open>removeAccessToken\<close>, \<open>navigation_fails\<close> for
  \<^verbatim>\<open>setStackRoot\<close>.
\<close>

record user_provider = effects +
  current_user :: "user option"
  timeoutRef :: "nat option"
  pending :: "nat list"
  awaiting_token :: nat
  awaiting_backend :: nat
  storage_fails :: bool
  navigation_fails :: bool

text \<open>
  \<^verbatim>\<open>Promise.all\<close> of two promises: both values when both are fulfilled, otherwise the
  error of the promise that was rejected first (\<open>first_wins\<close> says that, of two rejected
  promises, the first one of the array was rejected first).
\<close>

fun promise_all :: "bool \<Rightarrow> error + 'a \<Rightarrow> error + 'b \<Rightarrow> error + 'a \<times> 'b" where
  "promise_all first_wins (Inr a) (Inr b) = Inr (a, b)"
| "promise_all first_wins (Inl e) (Inr b) = Inl e"
| "promise_all first_wins (Inr a) (Inl e) = Inl e"
| "promise_all first_wins (Inl e1) (Inl e2) = Inl (if first_wins then e1 else e2)"

definition setUser :: "user \<Rightarrow> user_provider \<Rightarrow> user_provider" where
  "setUser u s = count_update (s\<lparr>current_user := Some u\<rparr>)"

definition setTimeout_ref :: "user_provider \<Rightarrow> user_provider" where
  "setTimeout_ref s =
     count_schedule (s\<lparr>pending := pending s @ [scheduled s], timeoutRef := Some (scheduled s)\<rparr>)"

definition clearTimeout :: "nat option \<Rightarrow> user_provider \<Rightarrow> user_provider" where
  "clearTimeout h s =
     (case h of None \<Rightarrow> s | Some k \<Rightarrow> s\<lparr>pending := removeAll k (pending s)\<rparr>)"

text \<open>\<^verbatim>\<open>loadUser\<close> up to its first \<^verbatim>\<open>await\<close>, the reading of the access token.\<close>

definition loadUser_call :: "user_provider \<Rightarrow> user_provider" where
  "loadUser_call s = s\<lparr>awaiting_token := awaiting_token s + 1\<rparr>"

text \<open>
  Resumed with the token: \<^verbatim>\<open>if (!token) return\<close> (no token, or the empty string),
  otherwise both backend calls are started and the invocation waits for
  \<^verbatim>\<open>Promise.all\<close>.
\<close>

definition loadUser_token :: "user_provider \<Rightarrow> user_provider" where
  "loadUser_token s =
     (case access_token s of
        None \<Rightarrow> s
      | Some token \<Rightarrow>
          if token = [] then s else s\<lparr>awaiting_backend := awaiting_backend s + 1\<rparr>)"

text \<open>
  The two awaited calls of the authorization branch, in the order of the source.  A
  rejected call throws out of the \<^verbatim>\<open>catch\<close> block, which ends \<^verbatim>\<open>loadUser\<close>: when
  the removal of the token is rejected the token is taken to stay and the navigation is
  not reached.  Nothing else of the provider touches the token or the screen, so the two
  calls are one step.
\<close>

definition removeAccessToken :: "user_provider \<Rightarrow> error + user_provider" where
  "removeAccessToken s =
     (if storage_fails s then Inl (OtherError ''removeAccessToken'')
      else Inr (s\<lparr>access_token := None\<rparr>))"

definition setStackRoot :: "string \<Rightarrow> user_provider \<Rightarrow> error + user_provider" where
  "setStackRoot name s =
     (if navigation_fails s then Inl (OtherError ''setStackRoot'')
      else Inr (s\<lparr>screen := name\<rparr>))"

definition sign_out :: "user_provider \<Rightarrow> user_provider" where
  "sign_out s =
     (case removeAccessToken s of
        Inl e \<Rightarrow> s
      | Inr s1 \<Rightarrow> (case setStackRoot ''SignIn'' s1 of Inl e \<Rightarrow> s1 | Inr s2 \<Rightarrow> s2))"

text \<open>Resumed with the outcome of \<^verbatim>\<open>Promise.all\<close>: the rest of the \<^verbatim>\<open>try\<close>, or the \<^verbatim>\<open>catch\<close>.\<close>

definition loadUser_resume ::
  "error + user \<times> payment_method list \<Rightarrow> user_provider \<Rightarrow> user_provider" where
  "loadUser_resume r s =
     (case r of
        Inr (newUser, newPaymentMethods) \<Rightarrow>
          setTimeout_ref (setUser (newUser\<lparr>paymentMethods := Some newPaymentMethods\<rparr>) s)
      | Inl e \<Rightarrow>
          (case e of
             BackendError httpStatus msg \<Rightarrow>
               if httpStatus = UNAUTHORIZED then sign_out s
               else console_error e s
           | _ \<Rightarrow> console_error e s))"

text \<open>The test of the \<^verbatim>\<open>catch\<close> block of \<^verbatim>\<open>loadUser\<close>, as a predicate.\<close>

definition is_unauthorized :: "error \<Rightarrow> bool" where
  "is_unauthorized e = (case e of BackendError httpStatus msg \<Rightarrow> httpStatus = UNAUTHORIZED | _ \<Rightarrow> False)"

datatype user_event =
    UFire nat
  | UToken
  | USettle bool "error + user" "error + payment_method list"
  | UCleanup

definition user_step :: "user_event \<Rightarrow> user_provider \<Rightarrow> user_provider option" where
  "user_step ev s =
     (case ev of
        UFire h \<Rightarrow>
          if h \<in> set (pending s)
          then Some (loadUser_call (s\<lparr>pending := removeAll h (pending s)\<rparr>))
          else None
      | UToken \<Rightarrow>
          if awaiting_token s = 0 then None
          else Some (loadUser_token (s\<lparr>awaiting_token := awaiting_token s - 1\<rparr>))
      | USettle first_wins ru rp \<Rightarrow>
          if awaiting_backend s = 0 then None
          else Some (loadUser_resume (promise_all first_wins ru rp)
                       (s\<lparr>awaiting_backend := awaiting_backend s - 1\<rparr>))
      | UCleanup \<Rightarrow>
          if mounted s then Some (clearTimeout (timeoutRef s) (s\<lparr>mounted := False\<rparr>))
          else None)"

text \<open>
  The provider as it is created (with collaborators that do not fail); mounting calls
  \<^verbatim>\<open>loadUser\<close> once.
\<close>

definition fresh_user :: "string option \<Rightarrow> string \<Rightarrow> user_provider" where
  "fresh_user token scr =
     \<lparr>mounted = True, updates = 0, late_updates = 0, scheduled = 0, late_scheduled = 0,
      console = [], access_token = token, screen = scr,
      current_user = None, timeoutRef = None, pending = [],
      awaiting_token = 0, awaiting_backend = 0,
      storage_fails = False, navigation_fails = False\<rparr>"

definition mount_user :: "string option \<Rightarrow> string \<Rightarrow> user_provider" where
  "mount_user token scr = loadUser_call (fresh_user token scr)"

text \<open>Concrete values for the examples.\<close>

definition alice :: user where
  "alice = \<lparr>first_name = ''Alice'', last_name = ''A'', registration_status = ''Approved'',
     is_admin = False, paymentMethods = None\<rparr>"

definition card :: payment_method where
  "card = \<lparr>pm_id = 1, pm_name = ''card'', pm_provider = ''CreditCard''\<rparr>"


section \<open>The home page: redirects and content\<close>

text \<open>
  Modelled from the spec: the enumeration \<^verbatim>\<open>RegistrationStatus\<close> is declared in
  \<^verbatim>\<open>interfaces/user\<close>, which is not among the sources; its members are the strings the
  specification names.
\<close>

definition Registered :: string where
  "Registered = ''Registered''"

definition Verified :: string where
  "Verified = ''Verified''"

definition userVerificationRequired :: "user option \<Rightarrow> bool" where
  "userVerificationRequired u =
     (case u of None \<Rightarrow> False | Some usr \<Rightarrow> registration_status usr \<in> set [Registered, Verified])"

datatype page_content = WalletLoader | VerifyingMessage | AdminHome | WalletContent

definition pageContent :: "user option \<Rightarrow> page_content" where
  "pageContent u =
     (case u of
        None \<Rightarrow> WalletLoader
      | Some usr \<Rightarrow>
          if registration_status usr \<noteq> ''Approved'' then VerifyingMessage
          else if is_admin usr then AdminHome
          else WalletContent)"

text \<open>
  The \<^verbatim>\<open>Redirect\<close> elements that \<^verbatim>\<open>Home\<close> returns, by their targets and in the order
  of the source.  \<^verbatim>\<open>!!activeCurrency\<close> is false for \<^verbatim>\<open>undefined\<close> and for the empty
  string.
\<close>

definition Home_redirects :: "user option \<Rightarrow> string option \<Rightarrow> string list" where
  "Home_redirects u activeCurrency =
     (if userVerificationRequired u then [''/verify''] else []) @
     (case activeCurrency of
        None \<Rightarrow> []
      | Some c \<Rightarrow> if c = [] then [] else [''/wallet/'' @ c])"





section \<open>The total balance\<close>

text \<open>
  A JavaScript number is a real number or \<^verbatim>\<open>NaN\<close>; rounding is not modelled (the
  values of the example below are binary fractions, on which the floating-point
  operations are exact).
\<close>

datatype number = Num real | NaN

fun num_times :: "number \<Rightarrow> number \<Rightarrow> number" where
  "num_times (Num a) (Num b) = Num (a * b)"
| "num_times _ _ = NaN"

fun num_plus :: "number \<Rightarrow> number \<Rightarrow> number" where
  "num_plus (Num a) (Num b) = Num (a + b)"
| "num_plus _ _ = NaN"

record currency_balance =
  currency :: string
  balance :: int

text \<open>
  Modelled from the spec: \<^verbatim>\<open>libraToFloat\<close> is defined in \<^verbatim>\<open>utils/amount-precision\<close>,
  which is not among the sources.  The specification gives the precision: six decimals,
  so that 500000 minor units are 0.5 major units.
\<close>

definition libraToFloat :: "int \<Rightarrow> real" where
  "libraToFloat amount = real_of_int amount / 10 ^ 6"

text \<open>
  The \<^verbatim>\<open>reduce\<close> of both \<^verbatim>\<open>TotalBalance\<close> components.  \<open>rates\<close> maps a currency to
  its table of rates: reading a rate of a currency that has no table throws a
  \<^verbatim>\<open>TypeError\<close>, and a rate missing from the table is \<^verbatim>\<open>undefined\<close>, which makes
  the product \<^verbatim>\<open>NaN\<close>.
\<close>

fun totalFiatBalance_reduce ::
  "(string \<rightharpoonup> (string \<rightharpoonup> real)) \<Rightarrow> string \<Rightarrow> number \<Rightarrow> currency_balance list \<Rightarrow> error + number" where
  "totalFiatBalance_reduce rates fiatCurrencyCode totalBalance [] = Inr totalBalance"
| "totalFiatBalance_reduce rates fiatCurrencyCode totalBalance (currencyBalance # rest) =
     (case rates (currency currencyBalance) of
        None \<Rightarrow> Inl (TypeError ''cannot read property of undefined'')
      | Some table \<Rightarrow>
          (let exchangeRate = (case table fiatCurrencyCode of None \<Rightarrow> NaN | Some r \<Rightarrow> Num r)
           in totalFiatBalance_reduce rates fiatCurrencyCode
                (num_plus totalBalance
                   (num_times (Num (libraToFloat (balance currencyBalance))) exchangeRate))
                rest))"

text \<open>The component of the mobile application takes balances, fiat currency and rates as properties.\<close>

definition totalFiatBalance ::
  "currency_balance list \<Rightarrow> string \<Rightarrow> (string \<rightharpoonup> (string \<rightharpoonup> real)) \<Rightarrow> error + number" where
  "totalFiatBalance balances fiatCurrencyCode rates =
     totalFiatBalance_reduce rates fiatCurrencyCode (Num 0) balances"

text \<open>
  The component of the web application reads them from the settings, and renders nothing
  when there is no account.  A default fiat currency code that is \<^verbatim>\<open>undefined\<close> is
  the property key \<^verbatim>\<open>"undefined"\<close>.
\<close>

record currency_settings =
  rates :: "string \<rightharpoonup> real"

record account =
  balances :: "currency_balance list"

record settings =
  settings_account :: "account option"
  currencies :: "string \<rightharpoonup> currency_settings"
  defaultFiatCurrencyCode :: "string option"

definition totalFiatBalance_web :: "settings \<Rightarrow> (error + number) option" where
  "totalFiatBalance_web s =
     (case settings_account s of
        None \<Rightarrow> None
      | Some acc \<Rightarrow>
          Some (totalFiatBalance_reduce
                  (\<lambda>c. map_option rates (currencies s c))
                  (case defaultFiatCurrencyCode s of None \<Rightarrow> ''undefined'' | Some code \<Rightarrow> code)
                  (Num 0) (balances acc)))"

text \<open>The example of the specification: 500000 minor units of XUS, one XUS being one USD.\<close>

definition example_balances :: "currency_balance list" where
  "example_balances = [\<lparr>currency = ''XUS'', balance = 500000\<rparr>]"

definition example_rates :: "string \<rightharpoonup> (string \<rightharpoonup> real)" where
  "example_rates = [''XUS'' \<mapsto> [''USD'' \<mapsto> 1]]"

definition example_settings :: settings where
  "example_settings =
     \<lparr>settings_account = Some \<lparr>balances = example_balances\<rparr>,
      currencies = [''XUS'' \<mapsto> \<lparr>rates = [''USD'' \<mapsto> 1]\<rparr>],
      defaultFiatCurrencyCode = Some ''USD''\<rparr>"


section \<open>States for the examples\<close>

definition bob :: user where
  "bob = \<lparr>first_name = ''Bob'', last_name = ''B'', registration_status = ''Registered'',
     is_admin = False, paymentMethods = None\<rparr>"

text \<open>A mounted provider that has published a user and whose next refresh is in flight.\<close>

definition refreshing :: user_provider where
  "refreshing =
     \<lparr>mounted = True, updates = 1, late_updates = 0, scheduled = 1, late_scheduled = 0,
      console = [], access_token = Some ''token'', screen = ''Home'',
      current_user = Some (alice\<lparr>paymentMethods := Some [card]\<rparr>), timeoutRef = Some 0,
      pending = [], awaiting_token = 0, awaiting_backend = 1,
      storage_fails = False, navigation_fails = False\<rparr>"

text \<open>
  The same provider at the moment the timer of its first refresh has fired, before
  \<^verbatim>\<open>loadUser\<close> is called again.
\<close>

definition published :: user_provider where
  "published =
     \<lparr>mounted = True, updates = 1, late_updates = 0, scheduled = 1, late_scheduled = 0,
      console = [], access_token = Some ''token'', screen = ''Home'',
      current_user = Some (alice\<lparr>paymentMethods := Some [card]\<rparr>), timeoutRef = Some 0,
      pending = [], awaiting_token = 0, awaiting_backend = 0,
      storage_fails = False, navigation_fails = False\<rparr>"


section \<open>Proofs: classification\<close>

lemma classify_body_put:
  "classify_body now acc x = join acc (put (bucket_of now x) x)"
  by (cases acc) (simp add: bucket_of_def)

lemma join_assoc: "join (join a b) c = join a (join b c)"
  by (cases a, cases b, cases c) simp

lemma join_empty [simp]: "join ([], [], []) b = b" "join a ([], [], []) = a"
  by (cases b, simp) (cases a, simp)

lemma classify_loop_acc:
  "classify_loop clock i xs acc = join acc (classify_loop clock i xs ([], [], []))"
proof (induction xs arbitrary: i acc)
  case Nil
  show ?case by simp
next
  case (Cons x xs)
  have "classify_loop clock i (x # xs) acc =
        join (join acc (put (bucket_of (clock i) x) x)) (classify_loop clock (Suc i) xs ([], [], []))"
    by (simp add: classify_body_put Cons.IH [of "Suc i" "join acc (put (bucket_of (clock i) x) x)"])
  also have "\<dots> = join acc (join (put (bucket_of (clock i) x) x) (classify_loop clock (Suc i) xs ([], [], [])))"
    by (rule join_assoc)
  also have "join (put (bucket_of (clock i) x) x) (classify_loop clock (Suc i) xs ([], [], []))
             = classify_loop clock i (x # xs) ([], [], [])"
    by (simp add: classify_body_put Cons.IH [of "Suc i" "put (bucket_of (clock i) x) x"])
  finally show ?case .
qed

lemma classify_loop_shift:
  "classify_loop clock (i + k) xs acc = classify_loop (\<lambda>j. clock (j + k)) i xs acc"
proof (induction xs arbitrary: i acc)
  case Nil
  show ?case by simp
next
  case (Cons x xs)
  have "classify_loop clock (Suc i + k) xs (classify_body (clock (i + k)) acc x) =
        classify_loop (\<lambda>j. clock (j + k)) (Suc i) xs (classify_body (clock (i + k)) acc x)"
    by (rule Cons.IH)
  then show ?case by simp
qed

lemma classify_loop_append:
  "classify_loop clock i (xs @ ys) acc =
     classify_loop clock (i + length xs) ys (classify_loop clock i xs acc)"
  by (induction xs arbitrary: i acc) simp_all

text \<open>
  The classification of a list with a marked element: what comes before, the element in
  the bucket chosen for it at its own clock reading, and what comes after.
\<close>

lemma classify_split:
  "classify clock (xs @ x # ys) =
     join (classify clock xs)
       (join (put (bucket_of (clock (length xs)) x) x)
          (classify (\<lambda>j. clock (j + Suc (length xs))) ys))"
proof -
  have "classify clock (xs @ x # ys) =
        classify_loop clock (Suc (length xs)) ys
          (join (classify clock xs) (put (bucket_of (clock (length xs)) x) x))"
    by (simp add: classify_def classify_loop_append classify_body_put)
  also have "\<dots> = join (join (classify clock xs) (put (bucket_of (clock (length xs)) x) x))
                      (classify_loop clock (0 + Suc (length xs)) ys ([], [], []))"
    by (simp add: classify_loop_acc [of clock "Suc (length xs)" ys "join a b" for a b])
  also have "\<dots> = join (join (classify clock xs) (put (bucket_of (clock (length xs)) x) x))
                      (classify (\<lambda>j. clock (j + Suc (length xs))) ys)"
    unfolding classify_def by (subst classify_loop_shift) (rule refl)
  finally show ?thesis by (simp only: join_assoc)
qed

lemma classify_Nil: "classify clock [] = ([], [], [])"
  by (simp add: classify_def)

lemma classify_snoc:
  "classify clock (xs @ [x]) = join (classify clock xs) (put (bucket_of (clock (length xs)) x) x)"
  using classify_split [of clock xs x "[]"] by (simp add: classify_Nil)

lemma pick_join: "pick b (join p q) = pick b p @ pick b q"
  by (cases p, cases q, cases b) simp_all

lemma pick_put: "pick b (put c x) = (if b = c then [x] else [])"
  by (cases b; cases c) simp_all

lemma buckets_eq: "p = (pick New p, pick Active p, pick History p)"
  by (cases p) simp

lemma nths_agree:
  "(\<And>i. i < length xs \<Longrightarrow> (i \<in> A) = (i \<in> B)) \<Longrightarrow> nths xs A = nths xs B"
  unfolding nths_def
  by (rule arg_cong [where f = "map fst"], rule filter_cong) (auto simp: set_zip)

lemma nths_positions_snoc:
  "nths (xs @ [x]) (positions clock (xs @ [x]) b) =
     nths xs (positions clock xs b) @ (if b = bucket_of (clock (length xs)) x then [x] else [])"
proof -
  have "nths xs (positions clock (xs @ [x]) b) = nths xs (positions clock xs b)"
    by (rule nths_agree) (simp add: positions_def nth_append)
  moreover have "nths [x] {j. j + length xs \<in> positions clock (xs @ [x]) b} =
                 (if b = bucket_of (clock (length xs)) x then [x] else [])"
    by (auto simp: positions_def nths_singleton)
  ultimately show ?thesis by (simp only: nths_append)
qed

lemma pick_classify: "pick b (classify clock xs) = nths xs (positions clock xs b)"
proof (induction xs rule: rev_induct)
  case Nil
  show ?case by (cases b) (simp_all add: classify_Nil)
next
  case (snoc x xs)
  show ?case
    by (simp only: classify_snoc pick_join pick_put snoc.IH nths_positions_snoc)
qed

lemma mset_join: "mset (pick New (join p q)) + mset (pick Active (join p q)) + mset (pick History (join p q))
   = (mset (pick New p) + mset (pick Active p) + mset (pick History p)) + (mset (pick New q) + mset (pick Active q) + mset (pick History q))"
  by (simp add: pick_join)

lemma mset_classify:
  "mset (pick New (classify clock xs)) + mset (pick Active (classify clock xs)) +
   mset (pick History (classify clock xs)) = mset xs"
proof (induction xs rule: rev_induct)
  case Nil
  show ?case by (simp add: classify_Nil)
next
  case (snoc x xs)
  have "mset (pick New (put c x)) + mset (pick Active (put c x)) + mset (pick History (put c x)) = {#x#}" for c
    by (cases c) simp_all
  then show ?case
    by (simp only: classify_snoc mset_join snoc.IH) simp
qed

text \<open>
  Claim C1.  For every list of approvals and every clock, the three arrays built by the
  loop form a partition of the positions of the input: each array is the input restricted
  to an index set (so it keeps the input's relative order, and is a subsequence of it),
  the three index sets are pairwise disjoint and together are all the positions, and as
  multisets the three arrays add up to the input (every occurrence lands in exactly one
  array).
\<close>

theorem classify_partition:
  "classify clock xs =
     (nths xs (positions clock xs New), nths xs (positions clock xs Active),
      nths xs (positions clock xs History)) \<and>
   positions clock xs New \<inter> positions clock xs Active = {} \<and>
   positions clock xs New \<inter> positions clock xs History = {} \<and>
   positions clock xs Active \<inter> positions clock xs History = {} \<and>
   positions clock xs New \<union> positions clock xs Active \<union> positions clock xs History = {..<length xs} \<and>
   mset (fst (classify clock xs)) + mset (fst (snd (classify clock xs))) +
     mset (snd (snd (classify clock xs))) = mset xs \<and>
   subseq (fst (classify clock xs)) xs \<and>
   subseq (fst (snd (classify clock xs))) xs \<and>
   subseq (snd (snd (classify clock xs))) xs"
proof -
  have eq: "classify clock xs =
     (nths xs (positions clock xs New), nths xs (positions clock xs Active),
      nths xs (positions clock xs History))"
    using buckets_eq [of "classify clock xs"] by (simp only: pick_classify)
  have disj: "positions clock xs New \<inter> positions clock xs Active = {}"
    "positions clock xs New \<inter> positions clock xs History = {}"
    "positions clock xs Active \<inter> positions clock xs History = {}"
    by (auto simp: positions_def)
  have cover: "positions clock xs New \<union> positions clock xs Active \<union> positions clock xs History = {..<length xs}"
  proof (rule set_eqI)
    fix i
    show "i \<in> positions clock xs New \<union> positions clock xs Active \<union> positions clock xs History
          \<longleftrightarrow> i \<in> {..<length xs}"
      by (cases "bucket_of (clock i) (xs ! i)") (simp_all add: positions_def)
  qed
  have picks: "fst p = pick New p" "fst (snd p) = pick Active p" "snd (snd p) = pick History p" for p
    by (cases p, simp)+
  have m: "mset (fst (classify clock xs)) + mset (fst (snd (classify clock xs))) +
     mset (snd (snd (classify clock xs))) = mset xs"
    by (simp only: picks mset_classify)
  have s: "subseq (fst (classify clock xs)) xs" "subseq (fst (snd (classify clock xs))) xs"
    "subseq (snd (snd (classify clock xs))) xs"
    by (simp_all only: picks pick_classify subseq_conv_nths) blast+
  from eq disj cover m s show ?thesis by blast
qed

lemma classify_at:
  assumes "classify clock xs = (n1, a1, h1)"
    and "classify (\<lambda>j. clock (j + Suc (length xs))) ys = (n2, a2, h2)"
  shows "classify clock (xs @ x # ys) =
     (case bucket_of (clock (length xs)) x of
        New \<Rightarrow> (n1 @ x # n2, a1 @ a2, h1 @ h2)
      | Active \<Rightarrow> (n1 @ n2, a1 @ x # a2, h1 @ h2)
      | History \<Rightarrow> (n1 @ n2, a1 @ a2, h1 @ x # h2))"
  using assms by (cases "bucket_of (clock (length xs)) x") (simp_all add: classify_split)

text \<open>
  Claim C2, as stated, fails for a timestamp before the range of \<^verbatim>\<open>Date\<close>: the date is
  invalid, the comparison is false, and a valid approval that expired long ago is appended
  to the active array.
\<close>

theorem classify_by_status_counterexample:
  "status (mk ''b'' ''valid'' (- 10000000000000)) = ''valid'' \<and>
   expiration_timestamp (scope (mk ''b'' ''valid'' (- 10000000000000))) * 1000 < still 0 \<and>
   classify still [mk ''b'' ''valid'' (- 10000000000000)] =
     ([], [mk ''b'' ''valid'' (- 10000000000000)], [])"
  by (simp add: classify_def mk_def still_def new_Date_def date_less_def)

text \<open>
  Claim C2, amended.  Take any approval \<open>x\<close> at any position of the list (after \<open>xs\<close>,
  before \<open>ys\<close>), and the clock reading of its own iteration.  If its status is valid and
  its expiration, in milliseconds, lies within the range of \<^verbatim>\<open>Date\<close> and strictly before
  that reading, it is appended to the history array and to neither of the others; if its
  status is pending it goes to the new array; if it is valid and expires strictly after the
  reading it goes to the active array; with any other status it goes to the history array.
  The other two arrays consist of the approvals before and after it only.
\<close>

theorem classify_by_status:
  assumes "classify clock xs = (n1, a1, h1)"
    and "classify (\<lambda>j. clock (j + Suc (length xs))) ys = (n2, a2, h2)"
  shows "(status x = ''valid'' \<and>
          - 8640000000000000 \<le> expiration_timestamp (scope x) * 1000 \<and>
          expiration_timestamp (scope x) * 1000 \<le> 8640000000000000 \<and>
          expiration_timestamp (scope x) * 1000 < clock (length xs) \<longrightarrow>
            classify clock (xs @ x # ys) = (n1 @ n2, a1 @ a2, h1 @ x # h2)) \<and>
         (status x = ''pending'' \<longrightarrow>
            classify clock (xs @ x # ys) = (n1 @ x # n2, a1 @ a2, h1 @ h2)) \<and>
         (status x = ''valid'' \<and> clock (length xs) < expiration_timestamp (scope x) * 1000 \<longrightarrow>
            classify clock (xs @ x # ys) = (n1 @ n2, a1 @ x # a2, h1 @ h2)) \<and>
         (status x \<noteq> ''pending'' \<and> status x \<noteq> ''valid'' \<longrightarrow>
            classify clock (xs @ x # ys) = (n1 @ n2, a1 @ a2, h1 @ x # h2))"
  using classify_at [OF assms, of x]
  by (auto simp: bucket_of_def new_Date_def date_less_def)

theorem classify_by_status_witness:
  "classify (\<lambda>i. 5000) ([mk ''a'' ''pending'' 9] @ mk ''b'' ''valid'' 4 # [mk ''c'' ''rejected'' 9])
     = ([mk ''a'' ''pending'' 9] @ [], [] @ [], [] @ mk ''b'' ''valid'' 4 # [mk ''c'' ''rejected'' 9]) \<and>
   classify (\<lambda>i. 5000) ([mk ''a'' ''pending'' 9] @ mk ''b'' ''pending'' 4 # [mk ''c'' ''rejected'' 9])
     = ([mk ''a'' ''pending'' 9] @ mk ''b'' ''pending'' 4 # [], [] @ [], [] @ [mk ''c'' ''rejected'' 9]) \<and>
   classify (\<lambda>i. 5000) ([mk ''a'' ''pending'' 9] @ mk ''b'' ''valid'' 6 # [mk ''c'' ''rejected'' 9])
     = ([mk ''a'' ''pending'' 9] @ [], [] @ mk ''b'' ''valid'' 6 # [], [] @ [mk ''c'' ''rejected'' 9]) \<and>
   classify (\<lambda>i. 5000) ([mk ''a'' ''pending'' 9] @ mk ''b'' ''revoked'' 6 # [mk ''c'' ''rejected'' 9])
     = ([mk ''a'' ''pending'' 9] @ [], [] @ [], [] @ mk ''b'' ''revoked'' 6 # [mk ''c'' ''rejected'' 9])"
proof -
  have 1: "classify (\<lambda>i. 5000) [mk ''a'' ''pending'' 9] = ([mk ''a'' ''pending'' 9], [], [])"
    by (simp add: classify_def mk_def)
  have 2: "classify (\<lambda>j. (\<lambda>i. 5000) (j + Suc (length [mk ''a'' ''pending'' 9]))) [mk ''c'' ''rejected'' 9]
           = ([], [], [mk ''c'' ''rejected'' 9])"
    by (simp add: classify_def mk_def)
  have v: "status (mk ''b'' ''valid'' 4) = ''valid'' \<and>
           - 8640000000000000 \<le> expiration_timestamp (scope (mk ''b'' ''valid'' 4)) * 1000 \<and>
           expiration_timestamp (scope (mk ''b'' ''valid'' 4)) * 1000 \<le> 8640000000000000 \<and>
           expiration_timestamp (scope (mk ''b'' ''valid'' 4)) * 1000 < (\<lambda>i. 5000) (length [mk ''a'' ''pending'' 9])"
    by (simp add: mk_def)
  have p: "status (mk ''b'' ''pending'' 4) = ''pending''"
    by (simp add: mk_def)
  have f: "status (mk ''b'' ''valid'' 6) = ''valid'' \<and>
           (\<lambda>i. 5000) (length [mk ''a'' ''pending'' 9]) < expiration_timestamp (scope (mk ''b'' ''valid'' 6)) * 1000"
    by (simp add: mk_def)
  have r: "status (mk ''b'' ''revoked'' 6) \<noteq> ''pending'' \<and> status (mk ''b'' ''revoked'' 6) \<noteq> ''valid''"
    by (simp add: mk_def)
  note t = classify_by_status [OF 1 2]
  show ?thesis
    apply (intro conjI)
       apply (rule t [THEN conjunct1, THEN mp, OF v])
      apply (rule t [THEN conjunct2, THEN conjunct1, THEN mp, OF p])
     apply (rule t [THEN conjunct2, THEN conjunct2, THEN conjunct1, THEN mp, OF f])
    apply (rule t [THEN conjunct2, THEN conjunct2, THEN conjunct2, THEN mp, OF r])
    done
qed

text \<open>
  Claim C10.  The comparison is strict: a valid approval whose expiration equals the clock
  reading of its iteration is appended to the active array, not to the history array.
\<close>

theorem classify_expiry_boundary:
  assumes "classify clock xs = (n1, a1, h1)"
    and "classify (\<lambda>j. clock (j + Suc (length xs))) ys = (n2, a2, h2)"
    and "status x = ''valid''"
    and "expiration_timestamp (scope x) * 1000 = clock (length xs)"
  shows "classify clock (xs @ x # ys) = (n1 @ n2, a1 @ x # a2, h1 @ h2)"
  using classify_at [OF assms(1,2), of x] assms(3,4)
  by (simp add: bucket_of_def new_Date_def date_less_def)

theorem classify_expiry_boundary_witness:
  "classify (\<lambda>i. 5000) ([mk ''a'' ''pending'' 9] @ mk ''b'' ''valid'' 5 # [mk ''c'' ''rejected'' 9])
     = ([mk ''a'' ''pending'' 9] @ [], [] @ mk ''b'' ''valid'' 5 # [], [] @ [mk ''c'' ''rejected'' 9])"
proof -
  have 1: "classify (\<lambda>i. 5000) [mk ''a'' ''pending'' 9] = ([mk ''a'' ''pending'' 9], [], [])"
    by (simp add: classify_def mk_def)
  have 2: "classify (\<lambda>j. (\<lambda>i. 5000) (j + Suc (length [mk ''a'' ''pending'' 9]))) [mk ''c'' ''rejected'' 9]
           = ([], [], [mk ''c'' ''rejected'' 9])"
    by (simp add: classify_def mk_def)
  have 3: "status (mk ''b'' ''valid'' 5) = ''valid''"
    by (simp add: mk_def)
  have 4: "expiration_timestamp (scope (mk ''b'' ''valid'' 5)) * 1000 = (\<lambda>i. 5000) (length [mk ''a'' ''pending'' 9])"
    by (simp add: mk_def)
  show ?thesis by (rule classify_expiry_boundary [OF 1 2 3 4])
qed


section \<open>Proofs: polling feeds\<close>

lemmas feed_defs =
  approvals_step_def transactions_step_def poll_step_def mount_approvals_def
  mount_transactions_def fresh_def fetchApprovals_call_def fetchApprovals_resume_def
  fetchTransactions_call_def fetchTransactions_resume_def setState_def setTimeout_def
  suspend_def count_update_def count_schedule_def console_error_def

lemmas user_defs =
  user_step_def mount_user_def fresh_user_def loadUser_call_def loadUser_token_def loadUser_resume_def
  setUser_def setTimeout_ref_def clearTimeout_def count_update_def count_schedule_def
  console_error_def

text \<open>
  Claim C3.  The view is unmounted while the first fetch of a feed is in flight, and the
  fetch then resolves.  In all three feeds the resumed invocation calls the state setter
  and \<^verbatim>\<open>setTimeout\<close> after the unmount: the flag of the two web feeds is read before
  the \<^verbatim>\<open>await\<close> only, and the cleanup of the user feed clears a timer that does not
  exist yet.  The approvals feed, whose \<^verbatim>\<open>setTimeout\<close> stands outside the test of the
  flag, goes on queueing a timer at every tick; the user feed goes on fetching and
  publishing.
\<close>

theorem unmount_during_fetch:
  "map_option (\<lambda>s. (mounted s, refresh s, shared s, late_updates s, late_scheduled s, timers s))
     (run approvals_step [Cleanup, Settle (Inr [mk ''a'' ''pending'' 9])]
        (mount_approvals (Some ''token'') ''/fundsPullPreApprovals''))
     = Some (False, False, [mk ''a'' ''pending'' 9], 1, 1, 1) \<and>
   map_option (\<lambda>s. (late_updates s, late_scheduled s, timers s))
     (run approvals_step [Cleanup, Settle (Inr [mk ''a'' ''pending'' 9]), Fire, Fire, Fire]
        (mount_approvals (Some ''token'') ''/fundsPullPreApprovals''))
     = Some (1, 4, 1) \<and>
   map_option (\<lambda>s. (mounted s, refresh s, shared s, late_updates s, late_scheduled s, timers s))
     (run transactions_step [Cleanup, Settle (Inr [''tx1''])]
        (mount_transactions (Some ''token'') ''/''))
     = Some (False, False, [''tx1''], 1, 1, 1) \<and>
   map_option (\<lambda>s. (mounted s, current_user s, late_updates s, late_scheduled s, pending s))
     (run user_step [UToken, UCleanup, USettle True (Inr alice) (Inr [card])]
        (mount_user (Some ''token'') ''Home''))
     = Some (False, Some (alice\<lparr>paymentMethods := Some [card]\<rparr>), 1, 1, [0]) \<and>
   map_option (\<lambda>s. (late_updates s, late_scheduled s, pending s))
     (run user_step [UToken, UCleanup, USettle True (Inr alice) (Inr [card]),
                     UFire 0, UToken, USettle True (Inr alice) (Inr [card])]
        (mount_user (Some ''token'') ''Home''))
     = Some (2, 2, [1])"
  apply (intro conjI)
      apply (simp add: feed_defs)
     apply (simp add: feed_defs)
    apply (simp add: feed_defs)
   apply (simp add: user_defs)
  apply (simp add: user_defs)
  done

lemma poll_failure:
  assumes "0 < in_flight s"
    and "\<And>t. resume (Inl e) t = console_error e t"
  shows "poll_step call resume (Settle (Inl e)) s =
           Some (s\<lparr>in_flight := in_flight s - 1, console := console s @ [e]\<rparr>)"
  using assms by (simp add: poll_step_def console_error_def)

lemma poll_idle:
  assumes "timers s = 0" and "in_flight s = 0"
  shows "poll_step call resume Fire s = None" and "poll_step call resume (Settle r) s = None"
  using assms by (simp_all add: poll_step_def)

lemma loadUser_resume_failure:
  "loadUser_resume (Inl e) s = (if is_unauthorized e then sign_out s else console_error e s)"
  by (cases e) (simp_all add: loadUser_resume_def is_unauthorized_def)

lemma sign_out_cases:
  "sign_out s =
     (if storage_fails s then s
      else if navigation_fails s then s\<lparr>access_token := None\<rparr>
      else s\<lparr>access_token := None, screen := ''SignIn''\<rparr>)"
  by (simp add: sign_out_def removeAccessToken_def setStackRoot_def)

lemma user_failure:
  assumes "0 < awaiting_backend u" and "promise_all f ru rp = Inl e"
  shows "user_step (USettle f ru rp) u =
     Some (if is_unauthorized e
           then sign_out (u\<lparr>awaiting_backend := awaiting_backend u - 1\<rparr>)
           else u\<lparr>awaiting_backend := awaiting_backend u - 1, console := console u @ [e]\<rparr>)"
  using assms by (simp add: user_step_def loadUser_resume_failure console_error_def)

lemma user_idle:
  assumes "pending u = []" and "awaiting_token u = 0" and "awaiting_backend u = 0"
  shows "ev \<noteq> UCleanup \<Longrightarrow> user_step ev u = None"
  using assms by (cases ev) (simp_all add: user_step_def)

text \<open>
  Claim C4, as stated, fails: after a failed fetch no call of \<^verbatim>\<open>setTimeout\<close> has been
  made in any of the three feeds, and no timer is left to fire.
\<close>

theorem fetch_failure_counterexample:
  "map_option scheduled
     (run approvals_step [Settle (Inl (OtherError ''network''))]
        (mount_approvals (Some ''token'') ''/approvals'')) = Some 0 \<and>
   run approvals_step [Settle (Inl (OtherError ''network'')), Fire]
        (mount_approvals (Some ''token'') ''/approvals'') = None \<and>
   map_option scheduled
     (run transactions_step [Settle (Inl (OtherError ''network''))]
        (mount_transactions (Some ''token'') ''/'')) = Some 0 \<and>
   run transactions_step [Settle (Inl (OtherError ''network'')), Fire]
        (mount_transactions (Some ''token'') ''/'' :: string list poller) = None \<and>
   map_option scheduled
     (run user_step [UToken, USettle True (Inl (OtherError ''network'')) (Inr [card])]
        (mount_user (Some ''token'') ''Home'')) = Some 0 \<and>
   map_option pending
     (run user_step [UToken, USettle True (Inl (OtherError ''network'')) (Inr [card])]
        (mount_user (Some ''token'') ''Home'')) = Some []"
  apply (intro conjI)
  apply (simp_all add: feed_defs)
  apply (simp_all add: user_defs)
  done

text \<open>
  Claim C4, amended.  When the backend call of a suspended invocation fails, the error is
  written to the console (in the user feed unless it is the authorization failure, which
  is handled apart) and the invocation ends without calling \<^verbatim>\<open>setTimeout\<close>: the
  queued timers, the count of scheduled ticks and the published value are unchanged.
  When that invocation was all the feed had going (no timer queued, nothing else in
  flight), no event but the unmount is enabled afterwards: polling has stopped.
\<close>

theorem fetch_failure_stops_polling:
  "(0 < in_flight s \<longrightarrow>
      (\<exists>s'. approvals_step (Settle (Inl e)) s = Some s' \<and>
            console s' = console s @ [e] \<and> scheduled s' = scheduled s \<and>
            timers s' = timers s \<and> shared s' = shared s \<and>
            (timers s = 0 \<and> in_flight s = 1 \<longrightarrow>
               approvals_step Fire s' = None \<and> (\<forall>r. approvals_step (Settle r) s' = None))) \<and>
      (\<exists>s'. transactions_step (Settle (Inl e)) s = Some s' \<and>
            console s' = console s @ [e] \<and> scheduled s' = scheduled s \<and>
            timers s' = timers s \<and> shared s' = shared s \<and>
            (timers s = 0 \<and> in_flight s = 1 \<longrightarrow>
               transactions_step Fire s' = None \<and> (\<forall>r. transactions_step (Settle r) s' = None)))) \<and>
   (0 < awaiting_backend u \<and> promise_all f ru rp = Inl e \<longrightarrow>
      (\<exists>u'. user_step (USettle f ru rp) u = Some u' \<and>
            console u' = (if is_unauthorized e then console u else console u @ [e]) \<and>
            scheduled u' = scheduled u \<and> pending u' = pending u \<and>
            current_user u' = current_user u \<and>
            (pending u = [] \<and> awaiting_token u = 0 \<and> awaiting_backend u = 1 \<longrightarrow>
               (\<forall>ev. ev \<noteq> UCleanup \<longrightarrow> user_step ev u' = None))))"
proof (intro conjI impI)
  assume a: "0 < in_flight s"
  have ra: "fetchApprovals_resume (Inl e) t = console_error e t" for t :: "'a poller"
    by (simp add: fetchApprovals_resume_def)
  show "\<exists>s'. approvals_step (Settle (Inl e)) s = Some s' \<and>
            console s' = console s @ [e] \<and> scheduled s' = scheduled s \<and>
            timers s' = timers s \<and> shared s' = shared s \<and>
            (timers s = 0 \<and> in_flight s = 1 \<longrightarrow>
               approvals_step Fire s' = None \<and> (\<forall>r. approvals_step (Settle r) s' = None))"
    unfolding approvals_step_def
    by (simp add: poll_failure [where resume = fetchApprovals_resume, OF a ra] poll_idle)
  have rt: "fetchTransactions_resume (Inl e) t = console_error e t" for t :: "'a poller"
    by (simp add: fetchTransactions_resume_def)
  show "\<exists>s'. transactions_step (Settle (Inl e)) s = Some s' \<and>
            console s' = console s @ [e] \<and> scheduled s' = scheduled s \<and>
            timers s' = timers s \<and> shared s' = shared s \<and>
            (timers s = 0 \<and> in_flight s = 1 \<longrightarrow>
               transactions_step Fire s' = None \<and> (\<forall>r. transactions_step (Settle r) s' = None))"
    unfolding transactions_step_def
    by (simp add: poll_failure [where resume = fetchTransactions_resume, OF a rt] poll_idle)
next
  assume b: "0 < awaiting_backend u \<and> promise_all f ru rp = Inl e"
  then have st: "user_step (USettle f ru rp) u =
     Some (if is_unauthorized e
           then sign_out (u\<lparr>awaiting_backend := awaiting_backend u - 1\<rparr>)
           else u\<lparr>awaiting_backend := awaiting_backend u - 1, console := console u @ [e]\<rparr>)"
    by (simp add: user_failure)
  show "\<exists>u'. user_step (USettle f ru rp) u = Some u' \<and>
            console u' = (if is_unauthorized e then console u else console u @ [e]) \<and>
            scheduled u' = scheduled u \<and> pending u' = pending u \<and>
            current_user u' = current_user u \<and>
            (pending u = [] \<and> awaiting_token u = 0 \<and> awaiting_backend u = 1 \<longrightarrow>
               (\<forall>ev. ev \<noteq> UCleanup \<longrightarrow> user_step ev u' = None))"
    unfolding st by (simp add: user_idle sign_out_cases)
qed

theorem fetch_failure_stops_polling_witness:
  "0 < in_flight (mount_approvals (Some ''token'') ''/approvals'') \<and>
   0 < awaiting_backend refreshing \<and>
   promise_all True (Inr alice) (Inl (OtherError ''network'')) = Inl (OtherError ''network'') \<and>
   (\<exists>s'. approvals_step (Settle (Inl (OtherError ''network''))) (mount_approvals (Some ''token'') ''/approvals'') = Some s' \<and>
         console s' = [OtherError ''network''] \<and> timers s' = 0 \<and> approvals_step Fire s' = None) \<and>
   (\<exists>u'. user_step (USettle True (Inr alice) (Inl (OtherError ''network''))) refreshing = Some u' \<and>
         console u' = [OtherError ''network''] \<and> pending u' = [] \<and> user_step (UFire 0) u' = None)"
proof -
  let ?s = "mount_approvals (Some ''token'') ''/approvals''"
  let ?e = "OtherError ''network''"
  have h1: "0 < in_flight ?s" "timers ?s = 0 \<and> in_flight ?s = 1" "console ?s = []"
    by (simp_all add: feed_defs)
  have h2: "0 < awaiting_backend refreshing \<and> promise_all True (Inr alice) (Inl ?e) = Inl ?e"
    "pending refreshing = [] \<and> awaiting_token refreshing = 0 \<and> awaiting_backend refreshing = 1"
    "console refreshing = []" "\<not> is_unauthorized ?e"
    by (simp_all add: refreshing_def is_unauthorized_def)
  note t = fetch_failure_stops_polling [of ?s ?e refreshing True "Inr alice" "Inl ?e"]
  from t h1 have a: "\<exists>s'. approvals_step (Settle (Inl ?e)) ?s = Some s' \<and>
         console s' = [?e] \<and> timers s' = 0 \<and> approvals_step Fire s' = None"
    by auto
  from t h2 have b: "\<exists>u'. user_step (USettle True (Inr alice) (Inl ?e)) refreshing = Some u' \<and>
         console u' = [?e] \<and> pending u' = [] \<and> user_step (UFire 0) u' = None"
    by auto
  from h1(1) h2(1) a b show ?thesis by simp
qed

lemma promise_all_failure:
  "isl ru \<or> isl rp \<Longrightarrow> \<exists>e. promise_all f ru rp = Inl e"
  by (cases ru; cases rp) simp_all

lemma sign_out_keeps:
  "current_user (sign_out s) = current_user s" "updates (sign_out s) = updates s"
  "console (sign_out s) = console s" "pending (sign_out s) = pending s"
  "scheduled (sign_out s) = scheduled s"
  by (simp_all add: sign_out_cases)

lemma settle_all_or_nothing:
  assumes "0 < awaiting_backend s"
  shows "\<exists>s'. user_step (USettle f ru rp) s = Some s' \<and>
           (isl ru \<or> isl rp \<longrightarrow>
              current_user s' = current_user s \<and> updates s' = updates s) \<and>
           (\<forall>u p. ru = Inr u \<and> rp = Inr p \<longrightarrow>
              current_user s' = Some (u\<lparr>paymentMethods := Some p\<rparr>) \<and>
              updates s' = updates s + 1)"
proof (cases "isl ru \<or> isl rp")
  case True
  then obtain e where e: "promise_all f ru rp = Inl e"
    using promise_all_failure by blast
  from True have no: "\<not> (ru = Inr u \<and> rp = Inr p)" for u p
    by auto
  show ?thesis
    unfolding user_failure [OF assms e] using no by (simp add: sign_out_keeps)
next
  case False
  then obtain u p where up: "ru = Inr u" "rp = Inr p"
    by (cases ru; cases rp) simp_all
  show ?thesis
    using assms
    by (simp add: up user_step_def loadUser_resume_def setUser_def setTimeout_ref_def
        count_update_def count_schedule_def)
qed

lemma loadUser_starts:
  assumes "access_token s = Some token" and "token \<noteq> []"
  shows "user_step UToken (loadUser_call s) = Some (s\<lparr>awaiting_backend := awaiting_backend s + 1\<rparr>)"
  using assms by (simp add: user_step_def loadUser_call_def loadUser_token_def)

lemma loadUser_returns:
  assumes "access_token s = None \<or> access_token s = Some []"
  shows "user_step UToken (loadUser_call s) = Some s"
  using assms by (auto simp add: user_step_def loadUser_call_def loadUser_token_def)

text \<open>
  Claim C5.  The refresh of the user is all or nothing.  Called with an access token in
  the session storage, \<^verbatim>\<open>loadUser\<close> reads the token and starts both backend calls
  (nothing else changes while they are in flight) and awaits them together; when their
  outcome arrives, then if either call failed the published user is the one from before
  the refresh and the state setter has not been called, and if both succeeded the
  published user is the fetched profile with the fetched payment methods attached.
  Without a token \<^verbatim>\<open>loadUser\<close> returns and leaves the state as it was.  The same
  holds of the outcome of any refresh that is in flight.
\<close>

theorem loadUser_all_or_nothing:
  "(access_token s = Some token \<and> token \<noteq> [] \<longrightarrow>
      run user_step [UToken] (loadUser_call s) =
        Some (s\<lparr>awaiting_backend := awaiting_backend s + 1\<rparr>) \<and>
      (\<exists>s'. run user_step [UToken, USettle f ru rp] (loadUser_call s) = Some s' \<and>
            (isl ru \<or> isl rp \<longrightarrow>
               current_user s' = current_user s \<and> updates s' = updates s) \<and>
            (\<forall>u p. ru = Inr u \<and> rp = Inr p \<longrightarrow>
               current_user s' = Some (u\<lparr>paymentMethods := Some p\<rparr>) \<and>
               updates s' = updates s + 1))) \<and>
   (access_token s = None \<or> access_token s = Some [] \<longrightarrow>
      run user_step [UToken] (loadUser_call s) = Some s) \<and>
   (0 < awaiting_backend s \<longrightarrow>
      (\<exists>s'. user_step (USettle f ru rp) s = Some s' \<and>
            (isl ru \<or> isl rp \<longrightarrow>
               current_user s' = current_user s \<and> updates s' = updates s) \<and>
            (\<forall>u p. ru = Inr u \<and> rp = Inr p \<longrightarrow>
               current_user s' = Some (u\<lparr>paymentMethods := Some p\<rparr>) \<and>
               updates s' = updates s + 1)))"
proof (intro conjI impI)
  assume t: "access_token s = Some token \<and> token \<noteq> []"
  let ?s1 = "s\<lparr>awaiting_backend := awaiting_backend s + 1\<rparr>"
  from t have start: "user_step UToken (loadUser_call s) = Some ?s1"
    by (simp add: loadUser_starts)
  then show "run user_step [UToken] (loadUser_call s) = Some ?s1"
    by simp
  have "0 < awaiting_backend ?s1" by simp
  from settle_all_or_nothing [OF this, of f ru rp]
  show "\<exists>s'. run user_step [UToken, USettle f ru rp] (loadUser_call s) = Some s' \<and>
            (isl ru \<or> isl rp \<longrightarrow>
               current_user s' = current_user s \<and> updates s' = updates s) \<and>
            (\<forall>u p. ru = Inr u \<and> rp = Inr p \<longrightarrow>
               current_user s' = Some (u\<lparr>paymentMethods := Some p\<rparr>) \<and>
               updates s' = updates s + 1)"
    by (auto simp add: start)
next
  assume "access_token s = None \<or> access_token s = Some []"
  then show "run user_step [UToken] (loadUser_call s) = Some s"
    by (simp add: loadUser_returns)
next
  assume "0 < awaiting_backend s"
  then show "\<exists>s'. user_step (USettle f ru rp) s = Some s' \<and>
            (isl ru \<or> isl rp \<longrightarrow>
               current_user s' = current_user s \<and> updates s' = updates s) \<and>
            (\<forall>u p. ru = Inr u \<and> rp = Inr p \<longrightarrow>
               current_user s' = Some (u\<lparr>paymentMethods := Some p\<rparr>) \<and>
               updates s' = updates s + 1)"
    by (rule settle_all_or_nothing)
qed

theorem loadUser_all_or_nothing_witness:
  "(access_token (fresh_user (Some ''token'') ''Home'') = Some ''token'' \<and> ''token'' \<noteq> []) \<and>
   (\<exists>s'. run user_step [UToken, USettle True (Inr alice) (Inr [card])]
           (mount_user (Some ''token'') ''Home'') = Some s' \<and>
         current_user s' = Some (alice\<lparr>paymentMethods := Some [card]\<rparr>) \<and> updates s' = 1) \<and>
   (access_token published = Some ''token'') \<and>
   (\<exists>s'. run user_step [UToken, USettle True (Inr bob) (Inl (OtherError ''network''))]
           (loadUser_call published) = Some s' \<and>
         current_user s' = Some (alice\<lparr>paymentMethods := Some [card]\<rparr>) \<and> updates s' = 1) \<and>
   (access_token (fresh_user None ''Home'') = None) \<and>
   run user_step [UToken] (mount_user None ''Home'') = Some (fresh_user None ''Home'') \<and>
   0 < awaiting_backend refreshing \<and>
   (\<exists>s'. user_step (USettle False (Inl (OtherError ''network'')) (Inr [card])) refreshing = Some s' \<and>
         current_user s' = Some (alice\<lparr>paymentMethods := Some [card]\<rparr>) \<and> updates s' = 1)"
proof -
  have h1: "access_token (fresh_user (Some ''token'') ''Home'') = Some ''token'' \<and> ''token'' \<noteq> []"
    by (simp add: fresh_user_def)
  have v1: "updates (fresh_user (Some ''token'') ''Home'') = 0"
    by (simp add: fresh_user_def)
  from loadUser_all_or_nothing [of "fresh_user (Some ''token'') ''Home''" "''token''" True
      "Inr alice" "Inr [card]"] h1 v1
  have a: "\<exists>s'. run user_step [UToken, USettle True (Inr alice) (Inr [card])]
           (mount_user (Some ''token'') ''Home'') = Some s' \<and>
         current_user s' = Some (alice\<lparr>paymentMethods := Some [card]\<rparr>) \<and> updates s' = 1"
    unfolding mount_user_def by auto
  have h2: "access_token published = Some ''token'' \<and> ''token'' \<noteq> []"
    by (simp add: published_def)
  have v2: "current_user published = Some (alice\<lparr>paymentMethods := Some [card]\<rparr>)"
    "updates published = 1"
    by (simp_all add: published_def)
  from loadUser_all_or_nothing [of published "''token''" True
      "Inr bob" "Inl (OtherError ''network'')"] h2 v2
  have b: "\<exists>s'. run user_step [UToken, USettle True (Inr bob) (Inl (OtherError ''network''))]
           (loadUser_call published) = Some s' \<and>
         current_user s' = Some (alice\<lparr>paymentMethods := Some [card]\<rparr>) \<and> updates s' = 1"
    by auto
  have h3: "access_token (fresh_user None ''Home'') = None"
    by (simp add: fresh_user_def)
  from loadUser_all_or_nothing [of "fresh_user None ''Home''" "''token''" True
      "Inr alice" "Inr [card]"] h3
  have c: "run user_step [UToken] (mount_user None ''Home'') = Some (fresh_user None ''Home'')"
    unfolding mount_user_def by blast
  have h4: "0 < awaiting_backend refreshing"
    by (simp add: refreshing_def)
  have v4: "current_user refreshing = Some (alice\<lparr>paymentMethods := Some [card]\<rparr>)"
    "updates refreshing = 1"
    by (simp_all add: refreshing_def)
  from loadUser_all_or_nothing [of refreshing "''token''" False
      "Inl (OtherError ''network'')" "Inr [card]"] h4 v4
  have d: "\<exists>s'. user_step (USettle False (Inl (OtherError ''network'')) (Inr [card])) refreshing = Some s' \<and>
         current_user s' = Some (alice\<lparr>paymentMethods := Some [card]\<rparr>) \<and> updates s' = 1"
    by auto
  from h1 a h2 b h3 c h4 d show ?thesis by simp
qed

text \<open>
  Claim C6, as stated, fails on the polling paths of the web pages: after an HTTP 401 from
  the approvals (transactions) call the access token is still in the session storage and
  the location is unchanged; the error is written to the console like any other.
\<close>

theorem unauthorized_counterexample:
  "map_option access_token
     (approvals_step (Settle (Inl (BackendError 401 ''Unauthorized'')))
        (mount_approvals (Some ''token'') ''/approvals'')) = Some (Some ''token'') \<and>
   map_option screen
     (approvals_step (Settle (Inl (BackendError 401 ''Unauthorized'')))
        (mount_approvals (Some ''token'') ''/approvals'')) = Some ''/approvals'' \<and>
   map_option console
     (approvals_step (Settle (Inl (BackendError 401 ''Unauthorized'')))
        (mount_approvals (Some ''token'') ''/approvals'')) = Some [BackendError 401 ''Unauthorized''] \<and>
   map_option access_token
     (transactions_step (Settle (Inl (BackendError 401 ''Unauthorized'')))
        (mount_transactions (Some ''token'') ''/'' :: string list poller)) = Some (Some ''token'') \<and>
   map_option screen
     (transactions_step (Settle (Inl (BackendError 401 ''Unauthorized'')))
        (mount_transactions (Some ''token'') ''/'' :: string list poller)) = Some ''/''"
  by (simp add: feed_defs)

text \<open>
  Claim C6, amended.  In the refresh of the user, when the error that \<^verbatim>\<open>Promise.all\<close>
  reports (the rejection of the call that was rejected first) is an HTTP 401, the
  \<^verbatim>\<open>catch\<close> block removes the access token and then sets the sign-in screen as the
  root, and, provided neither of these two calls is rejected, nothing else changes; in
  every case no user is published, nothing is logged and no tick is scheduled.  A 401 of
  one call is not acted upon when the other call was rejected first with another error:
  that error is logged, and token and screen stay.  The approvals and the transactions
  feed do not look at the status: a 401 is logged, and token and location stay as they
  are.
\<close>

theorem unauthorized_handling:
  "(0 < awaiting_backend u \<and> promise_all f ru rp = Inl (BackendError UNAUTHORIZED m) \<longrightarrow>
      (\<not> storage_fails u \<and> \<not> navigation_fails u \<longrightarrow>
         user_step (USettle f ru rp) u =
           Some (u\<lparr>awaiting_backend := awaiting_backend u - 1,
                   access_token := None, screen := ''SignIn''\<rparr>)) \<and>
      (\<exists>u'. user_step (USettle f ru rp) u = Some u' \<and>
            current_user u' = current_user u \<and> updates u' = updates u \<and>
            console u' = console u \<and> pending u' = pending u \<and>
            scheduled u' = scheduled u)) \<and>
   (0 < awaiting_backend u \<and> promise_all f ru rp = Inl e \<and> \<not> is_unauthorized e \<longrightarrow>
      user_step (USettle f ru rp) u =
        Some (u\<lparr>awaiting_backend := awaiting_backend u - 1, console := console u @ [e]\<rparr>)) \<and>
   (0 < in_flight s \<longrightarrow>
      approvals_step (Settle (Inl (BackendError UNAUTHORIZED m))) s =
        Some (s\<lparr>in_flight := in_flight s - 1,
                console := console s @ [BackendError UNAUTHORIZED m]\<rparr>) \<and>
      transactions_step (Settle (Inl (BackendError UNAUTHORIZED m))) s =
        Some (s\<lparr>in_flight := in_flight s - 1,
                console := console s @ [BackendError UNAUTHORIZED m]\<rparr>))"
proof (intro conjI impI)
  assume a: "0 < awaiting_backend u \<and> promise_all f ru rp = Inl (BackendError UNAUTHORIZED m)"
  then have st: "user_step (USettle f ru rp) u =
      Some (sign_out (u\<lparr>awaiting_backend := awaiting_backend u - 1\<rparr>))"
    by (simp add: user_failure is_unauthorized_def)
  show "\<exists>u'. user_step (USettle f ru rp) u = Some u' \<and>
            current_user u' = current_user u \<and> updates u' = updates u \<and>
            console u' = console u \<and> pending u' = pending u \<and>
            scheduled u' = scheduled u"
    unfolding st by (simp add: sign_out_keeps)
  assume "\<not> storage_fails u \<and> \<not> navigation_fails u"
  then show "user_step (USettle f ru rp) u =
           Some (u\<lparr>awaiting_backend := awaiting_backend u - 1,
                   access_token := None, screen := ''SignIn''\<rparr>)"
    unfolding st by (simp add: sign_out_cases)
next
  assume "0 < awaiting_backend u \<and> promise_all f ru rp = Inl e \<and> \<not> is_unauthorized e"
  then show "user_step (USettle f ru rp) u =
        Some (u\<lparr>awaiting_backend := awaiting_backend u - 1, console := console u @ [e]\<rparr>)"
    by (simp add: user_failure)
next
  assume a: "0 < in_flight s"
  show "approvals_step (Settle (Inl (BackendError UNAUTHORIZED m))) s =
        Some (s\<lparr>in_flight := in_flight s - 1,
                console := console s @ [BackendError UNAUTHORIZED m]\<rparr>)"
    unfolding approvals_step_def
    by (rule poll_failure [OF a]) (simp add: fetchApprovals_resume_def)
  show "transactions_step (Settle (Inl (BackendError UNAUTHORIZED m))) s =
        Some (s\<lparr>in_flight := in_flight s - 1,
                console := console s @ [BackendError UNAUTHORIZED m]\<rparr>)"
    unfolding transactions_step_def
    by (rule poll_failure [OF a]) (simp add: fetchTransactions_resume_def)
qed

theorem unauthorized_handling_witness:
  "(0 < awaiting_backend refreshing \<and>
    promise_all True (Inr alice) (Inl (BackendError UNAUTHORIZED ''Unauthorized''))
      = Inl (BackendError UNAUTHORIZED ''Unauthorized'')) \<and>
   (\<not> storage_fails refreshing \<and> \<not> navigation_fails refreshing) \<and>
   user_step (USettle True (Inr alice) (Inl (BackendError UNAUTHORIZED ''Unauthorized''))) refreshing =
     Some (refreshing\<lparr>awaiting_backend := 0, access_token := None, screen := ''SignIn''\<rparr>) \<and>
   (promise_all True (Inl (OtherError ''network'')) (Inl (BackendError UNAUTHORIZED ''Unauthorized''))
      = Inl (OtherError ''network'') \<and> \<not> is_unauthorized (OtherError ''network'')) \<and>
   user_step (USettle True (Inl (OtherError ''network''))
                (Inl (BackendError UNAUTHORIZED ''Unauthorized''))) refreshing =
     Some (refreshing\<lparr>awaiting_backend := 0, console := [OtherError ''network'']\<rparr>) \<and>
   0 < in_flight (mount_approvals (Some ''token'') ''/approvals'') \<and>
   map_option access_token
     (approvals_step (Settle (Inl (BackendError UNAUTHORIZED ''Unauthorized'')))
        (mount_approvals (Some ''token'') ''/approvals'')) = Some (Some ''token'')"
proof -
  let ?u = "BackendError UNAUTHORIZED ''Unauthorized''"
  let ?n = "OtherError ''network''"
  have h0: "0 < awaiting_backend refreshing"
    by (simp add: refreshing_def)
  have h1: "0 < awaiting_backend refreshing \<and> promise_all True (Inr alice) (Inl ?u) = Inl ?u"
    using h0 by simp
  have h1': "\<not> storage_fails refreshing \<and> \<not> navigation_fails refreshing"
    by (simp add: refreshing_def)
  have h2: "promise_all True (Inl ?n) (Inl ?u) = Inl ?n \<and> \<not> is_unauthorized ?n"
    by (simp add: is_unauthorized_def)
  have h3: "0 < in_flight (mount_approvals (Some ''token'') ''/approvals'')"
    by (simp add: feed_defs)
  have v: "awaiting_backend refreshing - 1 = 0" "console refreshing = []"
    by (simp_all add: refreshing_def)
  note t1 = unauthorized_handling [of refreshing True "Inr alice" "Inl ?u" "''Unauthorized''" ?n
      "mount_approvals (Some ''token'') ''/approvals''"]
  note t2 = unauthorized_handling [of refreshing True "Inl ?n" "Inl ?u" "''Unauthorized''" ?n
      "mount_approvals (Some ''token'') ''/approvals''"]
  from t1 h1 h1' v have a: "user_step (USettle True (Inr alice) (Inl ?u)) refreshing =
     Some (refreshing\<lparr>awaiting_backend := 0, access_token := None, screen := ''SignIn''\<rparr>)"
    by simp
  from t2 h0 h2 v have b: "user_step (USettle True (Inl ?n) (Inl ?u)) refreshing =
     Some (refreshing\<lparr>awaiting_backend := 0, console := [?n]\<rparr>)"
    by simp
  from t1 h3 have c: "map_option access_token
     (approvals_step (Settle (Inl ?u)) (mount_approvals (Some ''token'') ''/approvals'')) = Some (Some ''token'')"
    by (simp add: feed_defs)
  from h1 h1' a h2 b h3 c show ?thesis by simp
qed


section \<open>Proofs: the home page\<close>




text \<open>
  Claim C9, as stated, fails for an administrator: with status Approved the page shows
  the administration view, not the wallet.
\<close>

theorem Home_content_counterexample:
  "registration_status (alice\<lparr>is_admin := True\<rparr>) = ''Approved'' \<and>
   pageContent (Some (alice\<lparr>is_admin := True\<rparr>)) = AdminHome \<and>
   pageContent (Some (alice\<lparr>is_admin := True\<rparr>)) \<noteq> WalletContent"
  by (simp add: pageContent_def alice_def)

text \<open>
  Claim C9, amended.  For every fetched user the wallet content is shown if and only if
  the status is Approved and the user is not an administrator; an approved administrator
  is shown the administration view; a user with any other status is shown the verifying
  message; and a user with status Registered or Verified is, in addition, redirected to
  the verification flow.
\<close>

theorem Home_content:
  "(pageContent (Some usr) = WalletContent \<longleftrightarrow>
      registration_status usr = ''Approved'' \<and> \<not> is_admin usr) \<and>
   (pageContent (Some usr) = AdminHome \<longleftrightarrow>
      registration_status usr = ''Approved'' \<and> is_admin usr) \<and>
   (pageContent (Some usr) = VerifyingMessage \<longleftrightarrow> registration_status usr \<noteq> ''Approved'') \<and>
   (registration_status usr = Registered \<or> registration_status usr = Verified \<longrightarrow>
      pageContent (Some usr) = VerifyingMessage \<and>
      ''/verify'' \<in> set (Home_redirects (Some usr) activeCurrency))"
  by (auto simp: pageContent_def Home_redirects_def userVerificationRequired_def
      Registered_def Verified_def)

theorem Home_content_witness:
  "pageContent (Some alice) = WalletContent \<and>
   (registration_status bob = Registered \<or> registration_status bob = Verified) \<and>
   pageContent (Some bob) = VerifyingMessage \<and>
   ''/verify'' \<in> set (Home_redirects (Some bob) None)"
proof -
  have a: "registration_status alice = ''Approved'' \<and> \<not> is_admin alice"
    by (simp add: alice_def)
  have b: "registration_status bob = Registered \<or> registration_status bob = Verified"
    by (simp add: bob_def Registered_def)
  from Home_content [of alice None] a have 1: "pageContent (Some alice) = WalletContent"
    by simp
  from Home_content [of bob None] b
  have 2: "pageContent (Some bob) = VerifyingMessage \<and> ''/verify'' \<in> set (Home_redirects (Some bob) None)"
    by blast
  from 1 b 2 show ?thesis by simp
qed


section \<open>Proofs: the total balance\<close>

text \<open>
  Claim C8, as stated with the result 5.00, fails: the total of the example is not 5.
\<close>

theorem total_balance_counterexample:
  "totalFiatBalance example_balances ''USD'' example_rates \<noteq> Inr (Num 5) \<and>
   totalFiatBalance_web example_settings \<noteq> Some (Inr (Num 5))"
  by (simp add: totalFiatBalance_def totalFiatBalance_web_def example_balances_def
      example_rates_def example_settings_def libraToFloat_def)

text \<open>
  Claim C8, amended.  For the balances [(XUS, 500000)] and the rate XUS to USD of 1.00, at
  six decimals, the total fiat balance is 0.5, the value of the expansion the
  specification gives (500000 minor units, 0.5 major units, $0.50); both components
  compute it.
\<close>

theorem total_balance_example:
  "totalFiatBalance example_balances ''USD'' example_rates = Inr (Num (1 / 2)) \<and>
   totalFiatBalance_web example_settings = Some (Inr (Num (1 / 2)))"
  by (simp add: totalFiatBalance_def totalFiatBalance_web_def example_balances_def
      example_rates_def example_settings_def libraToFloat_def)

end
